theory Spec2Isabelle
  imports Complex_Main "HOL-Library.Sublist"
begin

section \<open>Strings\<close>

text \<open>
  A Python \<^verbatim>\<open>str\<close> is a sequence of Unicode code points and \<^verbatim>\<open>len\<close> counts code
  points, so a string is modelled as a list of code points.  \<open>ustr\<close> turns a literal
  into that representation.
\<close>

type_synonym ustr = "nat list"

definition ustr :: "string \<Rightarrow> ustr" where
  "ustr s = map of_char s"

text \<open>The code points for which \<^verbatim>\<open>str.isspace\<close> holds: what \<^verbatim>\<open>str.strip()\<close> removes.\<close>

definition is_space :: "nat \<Rightarrow> bool" where
  "is_space c \<longleftrightarrow>
     (9 \<le> c \<and> c \<le> 13) \<or> (28 \<le> c \<and> c \<le> 32) \<or> c = 133 \<or> c = 160 \<or> c = 5760 \<or>
     (8192 \<le> c \<and> c \<le> 8202) \<or> c = 8232 \<or> c = 8233 \<or> c = 8239 \<or> c = 8287 \<or> c = 12288"

definition strip :: "ustr \<Rightarrow> ustr" where
  "strip s = rev (dropWhile is_space (rev (dropWhile is_space s)))"

text \<open>\<^verbatim>\<open>text.split("\n")\<close>: the pieces between newlines (code point 10), never an empty list.\<close>

fun split_nl :: "ustr \<Rightarrow> ustr list" where
  "split_nl [] = [[]]"
| "split_nl (c # cs) =
     (if c = 10 then [] # split_nl cs
      else (case split_nl cs of [] \<Rightarrow> [[c]] | w # ws \<Rightarrow> (c # w) # ws))"

text \<open>
  Python's slice \<^verbatim>\<open>xs[i:j]\<close>: a negative bound counts from the end, and both bounds are
  clipped to the list.
\<close>

definition slice_bound :: "int \<Rightarrow> int \<Rightarrow> nat" where
  "slice_bound n i = (if i < 0 then nat (max (i + n) 0) else nat (min i n))"

definition py_slice :: "'a list \<Rightarrow> int \<Rightarrow> int \<Rightarrow> 'a list" where
  "py_slice xs i j =
     (let n = int (length xs); a = slice_bound n i; b = slice_bound n j
      in take (b - a) (drop a xs))"

section \<open>The chunker (src/vector_store/indexer.py, simple_chunk)\<close>

text \<open>\<^verbatim>\<open>paras = [p.strip() for p in text.split("\n") if p.strip()]\<close>\<close>

definition paragraphs :: "ustr \<Rightarrow> ustr list" where
  "paragraphs text = map strip (filter (\<lambda>p. strip p \<noteq> []) (split_nl text))"

text \<open>
  The first loop, over the paragraphs, with its two variables \<^verbatim>\<open>chunks\<close> and \<^verbatim>\<open>buf\<close>.
  \<^verbatim>\<open>buf[-overlap:]\<close> is evaluated only when \<^verbatim>\<open>0 < overlap < len(buf)\<close>, where it is the
  last \<^verbatim>\<open>overlap\<close> characters.
\<close>

fun accumulate :: "int \<Rightarrow> int \<Rightarrow> ustr list \<Rightarrow> ustr list \<Rightarrow> ustr \<Rightarrow> ustr list \<times> ustr" where
  "accumulate max_chars overlap [] chunks buf = (chunks, buf)"
| "accumulate max_chars overlap (p # ps) chunks buf =
     (if buf = [] then accumulate max_chars overlap ps chunks p
      else if int (length buf) + 1 + int (length p) \<le> max_chars
        then accumulate max_chars overlap ps chunks (buf @ [10] @ p)
      else
        (let keep = (if overlap > 0 \<and> int (length buf) > overlap
                     then drop (length buf - nat overlap) buf else [])
         in accumulate max_chars overlap ps (chunks @ [buf]) (strip (keep @ [10] @ p))))"

text \<open>
  The \<^verbatim>\<open>while start < len(c)\<close> loop of the second pass.  Nothing in the source bounds the
  number of its iterations, so it is a partial function: \<open>None\<close> is the loop that never
  ends.
\<close>

partial_function (option)
  hard_split :: "ustr \<Rightarrow> int \<Rightarrow> int \<Rightarrow> int \<Rightarrow> ustr list \<Rightarrow> ustr list option" where
  "hard_split c max_chars step start final_chunks =
     (if start < int (length c)
      then hard_split c max_chars step (start + step)
             (final_chunks @ [py_slice c start (min (start + max_chars) (int (length c)))])
      else Some final_chunks)"

text \<open>The second pass: \<^verbatim>\<open>for c in chunks\<close>, with \<^verbatim>\<open>step = max_chars - overlap\<close>.\<close>

fun split_long :: "int \<Rightarrow> int \<Rightarrow> ustr list \<Rightarrow> ustr list \<Rightarrow> ustr list option" where
  "split_long max_chars overlap [] final_chunks = Some final_chunks"
| "split_long max_chars overlap (c # cs) final_chunks =
     (if int (length c) \<le> max_chars
      then split_long max_chars overlap cs (final_chunks @ [c])
      else (case hard_split c max_chars (max_chars - overlap) 0 final_chunks of
              None \<Rightarrow> None
            | Some final_chunks' \<Rightarrow> split_long max_chars overlap cs final_chunks'))"

definition simple_chunk :: "ustr \<Rightarrow> int \<Rightarrow> int \<Rightarrow> ustr list option" where
  "simple_chunk text max_chars overlap =
     (if text = [] then Some []
      else
        (case accumulate max_chars overlap (paragraphs text) [] [] of
           (chunks, buf) \<Rightarrow>
             split_long max_chars overlap (if buf \<noteq> [] then chunks @ [buf] else chunks) []))"

declare hard_split.simps [code]



section \<open>Errors and decimal numerals\<close>

datatype error = IndexError | KeyError | ValueError | RuntimeError string

text \<open>\<^verbatim>\<open>str(n)\<close> for an integer, as the f-strings of the source render it.\<close>

function digits :: "nat \<Rightarrow> ustr" where
  "digits n = (if n < 10 then [48 + n] else digits (n div 10) @ [48 + n mod 10])"
  by pat_completeness auto
termination
  by (relation "measure (\<lambda>n. n)") auto

definition str_int :: "int \<Rightarrow> ustr" where
  "str_int i = (if i < 0 then 45 # digits (nat (- i)) else digits (nat i))"

text \<open>
  Python's \<^verbatim>\<open>xs[i]\<close>: a negative index counts from the end, and an index outside the
  list raises IndexError (\<open>None\<close> here, turned into the error by the caller).
\<close>

definition nth_py :: "'a list \<Rightarrow> int \<Rightarrow> 'a option" where
  "nth_py xs i =
     (let n = int (length xs); j = (if i < 0 then n + i else i)
      in if 0 \<le> j \<and> j < n then Some (xs ! nat j) else None)"

section \<open>The document store (src/sql/db.py)\<close>

text \<open>
  A row of the table \<^verbatim>\<open>documents\<close>.  The table is the list of its rows in insertion
  order; \<open>seq\<close> is the counter SQLite keeps for an AUTOINCREMENT key (the largest id
  ever handed out).
\<close>

record doc_row =
  row_id :: int
  row_url :: ustr
  row_title :: ustr
  row_source :: ustr
  row_date_published :: ustr
  row_date_crawled :: ustr
  row_content_hash :: ustr
  row_raw_text :: ustr
  row_lang :: ustr

record sql_store =
  rows :: "doc_row list"
  seq :: int

text \<open>
  The dict given to \<^verbatim>\<open>upsert_document\<close>: \<^verbatim>\<open>url\<close> and \<^verbatim>\<open>content_hash\<close> are read with
  \<^verbatim>\<open>doc[...]\<close>, the other keys with \<^verbatim>\<open>doc.get(..., "")\<close>, so they may be absent.
\<close>

record document =
  doc_url :: ustr
  doc_content_hash :: ustr
  doc_title :: "ustr option"
  doc_source :: "ustr option"
  doc_date_published :: "ustr option"
  doc_raw_text :: "ustr option"
  doc_lang :: "ustr option"

definition get_or_empty :: "ustr option \<Rightarrow> ustr" where
  "get_or_empty v = (case v of None \<Rightarrow> [] | Some s \<Rightarrow> s)"

text \<open>
  \<^verbatim>\<open>SELECT id FROM documents WHERE url=? OR content_hash=?\<close> followed by \<^verbatim>\<open>fetchone()\<close>.
  SQLite answers the two sides of the \<^verbatim>\<open>OR\<close> from the two indexes of the table: first
  the unique index on \<^verbatim>\<open>url\<close>, then \<^verbatim>\<open>idx_documents_hash\<close>, whose entries for one hash
  come in the order of the ids.  So the row with the url is found first, and without one
  the oldest row with the content hash.
\<close>

definition lookup_existing :: "sql_store \<Rightarrow> ustr \<Rightarrow> ustr \<Rightarrow> doc_row option" where
  "lookup_existing st u h =
     (case find (\<lambda>r. row_url r = u) (rows st) of
        Some r \<Rightarrow> Some r
      | None \<Rightarrow> find (\<lambda>r. row_content_hash r = h) (rows st))"

definition next_id :: "sql_store \<Rightarrow> int" where
  "next_id st = max (seq st) (fold max (map row_id (rows st)) 0) + 1"

text \<open>
  \<^verbatim>\<open>upsert_document\<close>.  \<open>now\<close> is the value of \<^verbatim>\<open>time.strftime(...)\<close> at the call.  The
  function returns the id only: the id of the row found, or of the row inserted.
\<close>

definition upsert_document :: "sql_store \<Rightarrow> ustr \<Rightarrow> document \<Rightarrow> sql_store \<times> int" where
  "upsert_document st now doc =
     (case lookup_existing st (doc_url doc) (doc_content_hash doc) of
        Some row \<Rightarrow> (st, row_id row)
      | None \<Rightarrow>
          (let new_id = next_id st;
               row = \<lparr> row_id = new_id, row_url = doc_url doc,
                       row_title = get_or_empty (doc_title doc),
                       row_source = get_or_empty (doc_source doc),
                       row_date_published = get_or_empty (doc_date_published doc),
                       row_date_crawled = now,
                       row_content_hash = doc_content_hash doc,
                       row_raw_text = get_or_empty (doc_raw_text doc),
                       row_lang = get_or_empty (doc_lang doc) \<rparr>
           in (\<lparr> rows = rows st @ [row], seq = new_id \<rparr>, new_id)))"

text \<open>The condition of the \<^verbatim>\<open>SELECT\<close>, for a document and a stored row.\<close>

definition matches :: "document \<Rightarrow> doc_row \<Rightarrow> bool" where
  "matches doc r \<longleftrightarrow> row_url r = doc_url doc \<or> row_content_hash r = doc_content_hash doc"

text \<open>\<^verbatim>\<open>fetch_all\<close>: \<^verbatim>\<open>ORDER BY id DESC LIMIT ?\<close>; a negative limit is no limit in SQLite.\<close>

definition fetch_all :: "sql_store \<Rightarrow> int \<Rightarrow> doc_row list" where
  "fetch_all st limit =
     (let rs = rev (sort_key row_id (rows st))
      in if limit < 0 then rs else take (nat limit) rs)"

section \<open>The vector store and the indexer (src/vector_store/indexer.py)\<close>

text \<open>
  A Python \<^verbatim>\<open>float\<close> is modelled as a real number: arithmetic is exact, and rounding,
  overflow and NaN are outside the model.
\<close>

type_synonym vec = "real list"

datatype meta_value = MStr ustr | MInt int

type_synonym metadata = "string \<rightharpoonup> meta_value"

record passage =
  p_document :: ustr
  p_embedding :: vec
  p_metadata :: metadata

text \<open>
  The Chroma collection: the records by id.  \<^verbatim>\<open>col.upsert\<close> belongs to the vector
  database, not to this repository; it is modelled as overwrite-by-id over the parallel
  lists, which is what the indexer relies on.
\<close>

type_synonym collection = "ustr \<rightharpoonup> passage"

definition col_upsert ::
  "collection \<Rightarrow> ustr list \<Rightarrow> ustr list \<Rightarrow> vec list \<Rightarrow> metadata list \<Rightarrow> collection" where
  "col_upsert col ids documents embeddings metadatas =
     fold (\<lambda>(i, d, e, m) c. c(i \<mapsto> \<lparr> p_document = d, p_embedding = e, p_metadata = m \<rparr>))
       (zip ids (zip documents (zip embeddings metadatas))) col"

definition chunk_id :: "int \<Rightarrow> nat \<Rightarrow> ustr" where
  "chunk_id doc_id i = ustr ''doc_'' @ str_int doc_id @ ustr ''_chunk_'' @ str_int (int i)"

definition chunk_metadata :: "int \<Rightarrow> ustr \<Rightarrow> ustr \<Rightarrow> ustr \<Rightarrow> ustr \<Rightarrow> nat \<Rightarrow> ustr \<Rightarrow> metadata" where
  "chunk_metadata doc_id url title source date_published i chunk =
     [''doc_id'' \<mapsto> MInt doc_id, ''url'' \<mapsto> MStr url, ''title'' \<mapsto> MStr title,
      ''source'' \<mapsto> MStr source, ''date_published'' \<mapsto> MStr date_published,
      ''chunk_index'' \<mapsto> MInt (int i), ''length'' \<mapsto> MInt (int (length chunk))]"

text \<open>\<^verbatim>\<open>ChromaStore.upsert_chunks\<close>: the collection after the call and the count returned.\<close>

definition upsert_chunks ::
  "collection \<Rightarrow> int \<Rightarrow> ustr \<Rightarrow> ustr \<Rightarrow> ustr \<Rightarrow> ustr \<Rightarrow> ustr list \<Rightarrow> vec list \<Rightarrow> collection \<times> int" where
  "upsert_chunks col doc_id url title source date_published chunks embeddings =
     (if chunks = [] then (col, 0)
      else
        (let ids = map (chunk_id doc_id) [0..<length chunks];
             metadatas = map (\<lambda>i. chunk_metadata doc_id url title source date_published i (chunks ! i))
                           [0..<length chunks]
         in (col_upsert col ids chunks embeddings metadatas, int (length chunks))))"

record indexer =
  max_chars :: int
  overlap :: int
  min_chunk_chars :: int
  batch_size :: int

text \<open>\<^verbatim>\<open>Indexer._chunk_doc\<close>: the chunker, then the minimum-length filter.\<close>

definition chunk_doc :: "indexer \<Rightarrow> ustr \<Rightarrow> ustr list option" where
  "chunk_doc ix text =
     (case simple_chunk text (max_chars ix) (overlap ix) of
        None \<Rightarrow> None
      | Some chunks \<Rightarrow> Some (filter (\<lambda>c. int (length c) \<ge> min_chunk_chars ix) chunks))"

text \<open>
  The batches \<^verbatim>\<open>chunks[i:i + batch_size]\<close> for \<^verbatim>\<open>i in range(0, len(chunks), batch_size)\<close>,
  for a positive batch size.
\<close>

function batches :: "nat \<Rightarrow> 'a list \<Rightarrow> 'a list list" where
  "batches n xs = (if n = 0 \<or> xs = [] then [] else take n xs # batches n (drop n xs))"
  by pat_completeness auto
termination
  by (relation "measure (\<lambda>(n, xs). length xs)") auto

text \<open>
  The embedding service (\<^verbatim>\<open>SolarClient.embed_passage\<close>) is a parameter: a batch of texts
  gives the vectors, or the call raises.
\<close>

type_synonym embed_fn = "ustr list \<Rightarrow> error + vec list"

fun embed_batches :: "embed_fn \<Rightarrow> ustr list list \<Rightarrow> vec list \<Rightarrow> error + vec list" where
  "embed_batches emb [] embeddings = Inr embeddings"
| "embed_batches emb (batch # rest) embeddings =
     (case emb batch of
        Inl e \<Rightarrow> Inl e
      | Inr embs \<Rightarrow> embed_batches emb rest (embeddings @ embs))"

text \<open>
  \<^verbatim>\<open>range(0, n, batch_size)\<close> raises ValueError for a zero step and is empty for a
  negative one.
\<close>

definition embed_chunks :: "indexer \<Rightarrow> embed_fn \<Rightarrow> ustr list \<Rightarrow> error + vec list" where
  "embed_chunks ix emb chunks =
     (if batch_size ix = 0 then Inl ValueError
      else if batch_size ix < 0 then Inr []
      else embed_batches emb (batches (nat (batch_size ix)) chunks) [])"

record totals =
  total_chunks :: int
  total_embedded :: int
  total_upserted :: int

text \<open>
  The outcome of a run: the collection as the run leaves it, and the totals or the
  exception that ended the run.  \<open>None\<close> is a run that never returns.
\<close>

type_synonym index_outcome = "(collection \<times> (error + totals)) option"

text \<open>The body of the loop \<^verbatim>\<open>for d in docs\<close> and the loop itself.\<close>

definition index_doc :: "indexer \<Rightarrow> embed_fn \<Rightarrow> doc_row \<Rightarrow> collection \<Rightarrow> totals \<Rightarrow> index_outcome" where
  "index_doc ix emb d col t =
     (case chunk_doc ix (row_raw_text d) of
        None \<Rightarrow> None
      | Some chunks \<Rightarrow>
          if chunks = [] then Some (col, Inr t)
          else
            (case embed_chunks ix emb chunks of
               Inl e \<Rightarrow> Some (col, Inl e)
             | Inr embeddings \<Rightarrow>
                 if length embeddings \<noteq> length chunks
                 then Some (col, Inl (RuntimeError ''embedding count differs from chunk count''))
                 else
                   (case upsert_chunks col (row_id d) (row_url d) (row_title d) (row_source d)
                           (row_date_published d) chunks embeddings of
                      (col', upserted) \<Rightarrow>
                        Some (col', Inr \<lparr> total_chunks = total_chunks t + int (length chunks),
                                          total_embedded = total_embedded t + int (length embeddings),
                                          total_upserted = total_upserted t + upserted \<rparr>))))"

fun index_docs :: "indexer \<Rightarrow> embed_fn \<Rightarrow> doc_row list \<Rightarrow> collection \<Rightarrow> totals \<Rightarrow> index_outcome" where
  "index_docs ix emb [] col t = Some (col, Inr t)"
| "index_docs ix emb (d # ds) col t =
     (case index_doc ix emb d col t of
        None \<Rightarrow> None
      | Some (col', Inl e) \<Rightarrow> Some (col', Inl e)
      | Some (col', Inr t') \<Rightarrow> index_docs ix emb ds col' t')"

record report =
  docs_processed :: int
  chunks_total :: int
  embedded_total :: int
  upserted_total :: int

text \<open>\<^verbatim>\<open>Indexer.index_recent\<close>: the report, or the exception, with the collection left behind.\<close>

definition index_recent ::
  "indexer \<Rightarrow> embed_fn \<Rightarrow> sql_store \<Rightarrow> collection \<Rightarrow> int \<Rightarrow> (collection \<times> (error + report)) option" where
  "index_recent ix emb store col limit_docs =
     (let docs = fetch_all store limit_docs
      in case index_docs ix emb docs col
                \<lparr> total_chunks = 0, total_embedded = 0, total_upserted = 0 \<rparr> of
           None \<Rightarrow> None
         | Some (col', Inl e) \<Rightarrow> Some (col', Inl e)
         | Some (col', Inr t) \<Rightarrow>
             Some (col', Inr \<lparr> docs_processed = int (length docs),
                               chunks_total = total_chunks t,
                               embedded_total = total_embedded t,
                               upserted_total = total_upserted t \<rparr>))"

section \<open>Similarity and MMR selection (src/retriever/search.py)\<close>

text \<open>\<^verbatim>\<open>_cosine\<close>; \<^verbatim>\<open>zip\<close> stops at the shorter vector.\<close>

definition cosine :: "vec \<Rightarrow> vec \<Rightarrow> real" where
  "cosine a b =
     (let dot = sum_list (map (\<lambda>(x, y). x * y) (zip a b));
          na = sqrt (sum_list (map (\<lambda>x. x * x) a));
          nb = sqrt (sum_list (map (\<lambda>y. y * y) b))
      in dot / (na * nb + 1 / 10 ^ 12))"

text \<open>
  \<^verbatim>\<open>cand_vecs[i]\<close> for an id that the comprehension of \<^verbatim>\<open>rel_scores\<close> has already read:
  \<^verbatim>\<open>_mmr_select\<close> raises IndexError there for any id outside the list, before its
  loop starts.
\<close>

definition vec_at :: "vec list \<Rightarrow> int \<Rightarrow> vec" where
  "vec_at cand_vecs i = (case nth_py cand_vecs i of Some v \<Rightarrow> v | None \<Rightarrow> [])"

text \<open>\<^verbatim>\<open>max(...)\<close> over a sequence with first element \<open>x\<close>.\<close>

definition py_max :: "real \<Rightarrow> real list \<Rightarrow> real" where
  "py_max x xs = fold (\<lambda>y m. if y > m then y else m) xs x"

text \<open>The score of candidate \<open>i\<close> in one round, given what is selected so far.\<close>

definition mmr_score :: "vec \<Rightarrow> vec list \<Rightarrow> real \<Rightarrow> int list \<Rightarrow> int \<Rightarrow> real" where
  "mmr_score query_vec cand_vecs lambda_coef selected i =
     (case selected of
        [] \<Rightarrow> cosine query_vec (vec_at cand_vecs i)
      | j # js \<Rightarrow>
          (let max_sim = py_max (cosine (vec_at cand_vecs i) (vec_at cand_vecs j))
                            (map (\<lambda>j'. cosine (vec_at cand_vecs i) (vec_at cand_vecs j')) js)
           in lambda_coef * cosine query_vec (vec_at cand_vecs i) - (1 - lambda_coef) * max_sim))"

text \<open>The inner loop \<^verbatim>\<open>for i in list(remaining)\<close> with \<^verbatim>\<open>best_i\<close> and \<^verbatim>\<open>best_score\<close>.\<close>

fun pick_best :: "(int \<Rightarrow> real) \<Rightarrow> int list \<Rightarrow> int option \<Rightarrow> real \<Rightarrow> int option \<times> real" where
  "pick_best score [] best_i best_score = (best_i, best_score)"
| "pick_best score (i # rest) best_i best_score =
     (if score i > best_score then pick_best score rest (Some i) (score i)
      else pick_best score rest best_i best_score)"

text \<open>
  The outer loop.  \<^verbatim>\<open>remaining\<close> is a Python set, and the order in which \<^verbatim>\<open>list(remaining)\<close>
  enumerates it is not the order of \<^verbatim>\<open>cand_idxs\<close>: it is a parameter \<open>iter\<close> of the model.
  \<^verbatim>\<open>remaining.remove(best_i)\<close> raises KeyError when \<^verbatim>\<open>best_i\<close> is \<^verbatim>\<open>None\<close> or not in the set.
\<close>

function mmr_loop ::
  "(int set \<Rightarrow> int list) \<Rightarrow> vec \<Rightarrow> vec list \<Rightarrow> int \<Rightarrow> real \<Rightarrow> int set \<Rightarrow> int list \<Rightarrow> error + int list" where
  "mmr_loop iter query_vec cand_vecs k lambda_coef remaining selected =
     (if remaining \<noteq> {} \<and> int (length selected) < k then
        (case fst (pick_best (mmr_score query_vec cand_vecs lambda_coef selected)
                     (iter remaining) None (- (10 ^ 9))) of
           None \<Rightarrow> Inl KeyError
         | Some best_i \<Rightarrow>
             if best_i \<in> remaining
             then mmr_loop iter query_vec cand_vecs k lambda_coef
                    (remaining - {best_i}) (selected @ [best_i])
             else Inl KeyError)
      else Inr selected)"
  by pat_completeness auto
termination
  by (relation "measure (\<lambda>(iter, q, vs, k, l, remaining, selected). nat (k - int (length selected)))")
     auto

definition mmr_select ::
  "(int set \<Rightarrow> int list) \<Rightarrow> vec \<Rightarrow> vec list \<Rightarrow> int list \<Rightarrow> int \<Rightarrow> real \<Rightarrow> error + int list" where
  "mmr_select iter query_vec cand_vecs cand_idxs k lambda_coef =
     (if \<exists>i \<in> set cand_idxs. nth_py cand_vecs i = None then Inl IndexError
      else mmr_loop iter query_vec cand_vecs k lambda_coef (set cand_idxs) [])"



section \<open>MMR selection on Python floats\<close>

text \<open>
  The definitions above compute the scores in exact arithmetic.  The floats of the source
  are IEEE doubles: they round, overflow to infinity, and can be NaN, and a comparison
  with NaN is false.  What \<^verbatim>\<open>_mmr_select\<close> does with its scores does not depend on how they
  are computed, so the same loop is given here for any type \<open>'f\<close> of floats: \<open>gt\<close> is the
  comparison \<^verbatim>\<open>score > best_score\<close>, \<open>start\<close> is the float \<^verbatim>\<open>-1e9\<close>, and \<open>score selected i\<close> is
  the float that the body of the inner loop computes for candidate \<open>i\<close> when \<open>selected\<close> is
  the list of the ids selected so far.
\<close>

fun pick_best_on ::
  "('f \<Rightarrow> 'f \<Rightarrow> bool) \<Rightarrow> (int \<Rightarrow> 'f) \<Rightarrow> int list \<Rightarrow> int option \<Rightarrow> 'f \<Rightarrow> int option \<times> 'f" where
  "pick_best_on gt score [] best_i best_score = (best_i, best_score)"
| "pick_best_on gt score (i # rest) best_i best_score =
     (if gt (score i) best_score then pick_best_on gt score rest (Some i) (score i)
      else pick_best_on gt score rest best_i best_score)"

function mmr_loop_on ::
  "('f \<Rightarrow> 'f \<Rightarrow> bool) \<Rightarrow> 'f \<Rightarrow> (int list \<Rightarrow> int \<Rightarrow> 'f) \<Rightarrow> (int set \<Rightarrow> int list) \<Rightarrow> int \<Rightarrow>
     int set \<Rightarrow> int list \<Rightarrow> error + int list" where
  "mmr_loop_on gt start score iter k remaining selected =
     (if remaining \<noteq> {} \<and> int (length selected) < k then
        (case fst (pick_best_on gt (score selected) (iter remaining) None start) of
           None \<Rightarrow> Inl KeyError
         | Some best_i \<Rightarrow>
             if best_i \<in> remaining
             then mmr_loop_on gt start score iter k (remaining - {best_i}) (selected @ [best_i])
             else Inl KeyError)
      else Inr selected)"
  by pat_completeness auto
termination
  by (relation "measure (\<lambda>(gt, start, score, iter, k, remaining, selected).
        nat (k - int (length selected)))") auto

definition mmr_select_on ::
  "('f \<Rightarrow> 'f \<Rightarrow> bool) \<Rightarrow> 'f \<Rightarrow> (int list \<Rightarrow> int \<Rightarrow> 'f) \<Rightarrow> (int set \<Rightarrow> int list) \<Rightarrow>
     'v list \<Rightarrow> int list \<Rightarrow> int \<Rightarrow> error + int list" where
  "mmr_select_on gt start score iter cand_vecs cand_idxs k =
     (if \<exists>i \<in> set cand_idxs. nth_py cand_vecs i = None then Inl IndexError
      else mmr_loop_on gt start score iter k (set cand_idxs) [])"



section \<open>The retriever (src/retriever/search.py, Retriever.search)\<close>









text \<open>
  \<^verbatim>\<open>picked.sort(key=lambda x: x[2], reverse=True)\<close>.  The sort of a list compares keys with
  \<^verbatim>\<open><\<close> only, it is stable, and with \<^verbatim>\<open>reverse=True\<close> elements with equal keys keep their
  order: every element comes before the first one with a smaller key, in the order of
  the list.
\<close>

fun insert_desc ::
  "('f \<Rightarrow> 'f \<Rightarrow> bool) \<Rightarrow> (ustr \<times> metadata \<times> 'f) \<Rightarrow> (ustr \<times> metadata \<times> 'f) list \<Rightarrow>
     (ustr \<times> metadata \<times> 'f) list" where
  "insert_desc lt x [] = [x]"
| "insert_desc lt x (y # ys) =
     (if lt (snd (snd y)) (snd (snd x)) then x # y # ys else y # insert_desc lt x ys)"

definition sort_picked ::
  "('f \<Rightarrow> 'f \<Rightarrow> bool) \<Rightarrow> (ustr \<times> metadata \<times> 'f) list \<Rightarrow> (ustr \<times> metadata \<times> 'f) list" where
  "sort_picked lt picked = fold (insert_desc lt) picked []"













section \<open>Example data\<close>

text \<open>A stored row with the given id and text, a small indexer, and two embedding services.\<close>

definition example_row :: "int \<Rightarrow> ustr \<Rightarrow> doc_row" where
  "example_row i text =
     \<lparr> row_id = i, row_url = ustr ''u'' @ str_int i, row_title = [], row_source = [],
       row_date_published = [], row_date_crawled = [], row_content_hash = ustr ''h'' @ str_int i,
       row_raw_text = text, row_lang = [] \<rparr>"

definition example_doc :: "ustr \<Rightarrow> ustr \<Rightarrow> document" where
  "example_doc u h =
     \<lparr> doc_url = u, doc_content_hash = h, doc_title = None, doc_source = None,
       doc_date_published = None, doc_raw_text = None, doc_lang = None \<rparr>"

definition example_store :: sql_store where
  "example_store =
     \<lparr> rows = [\<lparr> row_id = 1, row_url = ustr ''A'', row_title = [], row_source = [],
                 row_date_published = [], row_date_crawled = [], row_content_hash = ustr ''H'',
                 row_raw_text = [], row_lang = [] \<rparr>],
       seq = 1 \<rparr>"

definition example_indexer :: indexer where
  "example_indexer = \<lparr> max_chars = 10, overlap = 0, min_chunk_chars = 1, batch_size = 1 \<rparr>"

definition unit_embed :: embed_fn where
  "unit_embed batch = Inr (map (\<lambda>t. [1]) batch)"

text \<open>A service whose answer for the text \<^verbatim>\<open>bad\<close> holds no embedding.\<close>

definition failing_embed :: embed_fn where
  "failing_embed batch = (if batch = [ustr ''bad''] then Inr [] else Inr (map (\<lambda>t. [1]) batch))"

definition count_mismatch :: error where
  "count_mismatch = RuntimeError ''embedding count differs from chunk count''"

section \<open>The chunker: termination and the bound on chunks\<close>

lemma py_slice_window_length:
  assumes "0 \<le> start" "0 \<le> mc"
  shows "int (length (py_slice c start (min (start + mc) (int (length c))))) \<le> mc"
  using assms by (auto simp: py_slice_def slice_bound_def Let_def min_def)

lemma hard_split_total:
  assumes "0 < step" "0 \<le> start" "0 \<le> mc"
  shows "\<exists>ys. hard_split c mc step start acc = Some (acc @ ys) \<and> (\<forall>y \<in> set ys. int (length y) \<le> mc)"
  using assms
proof (induction "nat (int (length c) - start)" arbitrary: start acc rule: less_induct)
  case less
  show ?case
  proof (cases "start < int (length c)")
    case False
    then have "hard_split c mc step start acc = Some (acc @ [])"
      by (subst hard_split.simps) simp
    then show ?thesis by fastforce
  next
    case True
    let ?piece = "py_slice c start (min (start + mc) (int (length c)))"
    have smaller: "nat (int (length c) - (start + step)) < nat (int (length c) - start)"
      using True less.prems by linarith
    have "0 \<le> start + step" using less.prems by linarith
    from less.hyps [OF smaller \<open>0 < step\<close> this \<open>0 \<le> mc\<close>, of "acc @ [?piece]"]
    obtain ys where ys: "hard_split c mc step (start + step) (acc @ [?piece]) = Some ((acc @ [?piece]) @ ys)"
      and bound: "\<forall>y \<in> set ys. int (length y) \<le> mc"
      by blast
    have "hard_split c mc step start acc = Some (acc @ (?piece # ys))"
      using True ys by (subst hard_split.simps) simp
    moreover have "\<forall>y \<in> set (?piece # ys). int (length y) \<le> mc"
      using bound py_slice_window_length [OF less.prems(2,3)] by simp
    ultimately show ?thesis by blast
  qed
qed

lemma split_long_total:
  assumes "ov < mc" "0 \<le> mc" "\<forall>y \<in> set acc. int (length y) \<le> mc"
  shows "\<exists>fs. split_long mc ov cs acc = Some fs \<and> (\<forall>y \<in> set fs. int (length y) \<le> mc)"
  using assms
proof (induction cs arbitrary: acc)
  case Nil
  then show ?case by simp
next
  case (Cons c cs)
  show ?case
  proof (cases "int (length c) \<le> mc")
    case True
    then show ?thesis using Cons.IH [of "acc @ [c]"] Cons.prems by simp
  next
    case False
    from hard_split_total [of "mc - ov" 0 mc c acc] Cons.prems
    obtain ys where ys: "hard_split c mc (mc - ov) 0 acc = Some (acc @ ys)"
      and b: "\<forall>y \<in> set ys. int (length y) \<le> mc"
      by auto
    have "\<forall>y \<in> set (acc @ ys). int (length y) \<le> mc"
      using b Cons.prems(3) by auto
    from Cons.IH [OF Cons.prems(1,2) this] show ?thesis
      using False ys by simp
  qed
qed

lemma split_nl_no_newline: "10 \<notin> set s \<Longrightarrow> split_nl s = [s]"
  by (induction s) auto

lemma paragraphs_a25: "paragraphs (replicate 25 97) = [replicate 25 97]"
  by (simp add: paragraphs_def split_nl_no_newline strip_def is_space_def)

lemma hard_split_a25:
  "hard_split (replicate 25 97) 10 10 0 [] = Some [replicate 10 97, replicate 10 97, replicate 5 97]"
  apply (subst hard_split.simps, simp add: py_slice_def slice_bound_def)
  apply (subst hard_split.simps, simp add: py_slice_def slice_bound_def)
  apply (subst hard_split.simps, simp add: py_slice_def slice_bound_def)
  apply (subst hard_split.simps, simp add: py_slice_def slice_bound_def)
  done

text \<open>
  Claim C2.  Whenever \<open>0 \<le> overlap < max_chars\<close>, the chunker returns, and every chunk it
  returns has at most \<open>max_chars\<close> characters; with \<open>overlap = 0\<close> and \<open>max_chars = 10\<close> the
  text of 25 letters \<open>a\<close> (code point 97) gives three chunks, of lengths 10, 10 and 5.
\<close>

theorem chunk_bound:
  "(0 \<le> ov \<and> ov < mc \<longrightarrow>
      (\<exists>chunks. simple_chunk text mc ov = Some chunks \<and>
                (\<forall>c \<in> set chunks. int (length c) \<le> mc))) \<and>
   map_option (map length) (simple_chunk (replicate 25 97) 10 0) = Some [10, 10, 5]"
proof (intro conjI impI)
  assume a: "0 \<le> ov \<and> ov < mc"
  show "\<exists>chunks. simple_chunk text mc ov = Some chunks \<and>
          (\<forall>c \<in> set chunks. int (length c) \<le> mc)"
  proof (cases "text = []")
    case True
    then show ?thesis by (simp add: simple_chunk_def)
  next
    case False
    obtain chunks buf where acc: "accumulate mc ov (paragraphs text) [] [] = (chunks, buf)"
      by (cases "accumulate mc ov (paragraphs text) [] []") auto
    from split_long_total [of ov mc "[]" "if buf \<noteq> [] then chunks @ [buf] else chunks"] a
    show ?thesis using False acc by (simp add: simple_chunk_def)
  qed
next
  show "map_option (map length) (simple_chunk (replicate 25 97) 10 0) = Some [10, 10, 5]"
    by (simp add: simple_chunk_def paragraphs_a25 hard_split_a25)
qed

theorem chunk_bound_witness:
  "(0::int) \<le> 3 \<and> (3::int) < 10 \<and>
   (\<exists>chunks. simple_chunk (replicate 25 97) 10 3 = Some chunks \<and>
      (\<forall>c \<in> set chunks. int (length c) \<le> 10))"
  using chunk_bound [of 3 10 "replicate 25 97"] by simp

section \<open>The chunker: a step that is not positive\<close>

lemma hard_split_diverges:
  assumes "step \<le> 0" "start < int (length c)"
  shows "hard_split c mc step start acc = None"
proof (rule ccontr)
  assume "hard_split c mc step start acc \<noteq> None"
  then obtain y where y: "hard_split c mc step start acc = Some y" by auto
  have "\<not> (step \<le> 0 \<and> start < int (length c))"
  proof (rule hard_split.raw_induct
      [where P = "\<lambda>c mc step start acc y. \<not> (step \<le> 0 \<and> start < int (length c))", OF _ y])
    fix f c mc step start acc r
    assume IH: "\<And>c mc step start acc r. f c mc step start acc = Some r \<Longrightarrow>
                  \<not> (step \<le> 0 \<and> start < int (length c))"
      and body: "(if start < int (length c)
                  then f c mc step (start + step)
                         (acc @ [py_slice c start (min (start + mc) (int (length c)))])
                  else Some acc) = Some r"
    show "\<not> (step \<le> 0 \<and> start < int (length c))"
    proof
      assume a: "step \<le> 0 \<and> start < int (length c)"
      with body have "f c mc step (start + step)
                         (acc @ [py_slice c start (min (start + mc) (int (length c)))]) = Some r"
        by simp
      from IH [OF this] a show False by linarith
    qed
  qed
  with assms show False by simp
qed

lemma paragraphs_aaa: "paragraphs (ustr ''aaa'') = [ustr ''aaa'']"
  by (simp add: paragraphs_def ustr_def strip_def is_space_def)

text \<open>
  Claim C5.  The chunker does not terminate on every input: \<^verbatim>\<open>step = max_chars - overlap\<close>
  is used as it is, neither clamped nor rejected, so with \<open>overlap \<ge> max_chars\<close> a chunk
  longer than \<open>max_chars\<close> keeps the window where it is.  For the text \<^verbatim>\<open>aaa\<close> with
  \<open>max_chars = 2\<close> and \<open>overlap = 2\<close> the loop never ends.
\<close>

theorem chunker_diverges: "simple_chunk (ustr ''aaa'') 2 2 = None"
proof -
  have "hard_split (ustr ''aaa'') 2 (2 - 2) 0 [] = None"
    by (rule hard_split_diverges) (simp_all add: ustr_def)
  then show ?thesis
    by (simp add: simple_chunk_def paragraphs_aaa) (simp add: ustr_def)
qed

section \<open>The chunker: what the chunks cover\<close>























section \<open>The indexer: totals and the count check\<close>

lemma upsert_chunks_count:
  "chunks \<noteq> [] \<Longrightarrow>
   snd (upsert_chunks col doc_id url title source date_published chunks embeddings) =
     int (length chunks)"
  by (simp add: upsert_chunks_def Let_def)

text \<open>One document adds the same number to the three totals.\<close>

lemma index_doc_totals:
  assumes "index_doc ix emb d col t = Some (col', Inr t')"
  shows "\<exists>n. total_chunks t' = total_chunks t + n \<and> total_embedded t' = total_embedded t + n \<and>
             total_upserted t' = total_upserted t + n"
proof -
  from assms obtain chunks where c: "chunk_doc ix (row_raw_text d) = Some chunks"
    by (auto simp: index_doc_def split: option.splits)
  show ?thesis
  proof (cases "chunks = []")
    case True
    with assms c have "t' = t" by (simp add: index_doc_def)
    then show ?thesis by simp
  next
    case False
    from assms c False obtain embeddings where
      e: "embed_chunks ix emb chunks = Inr embeddings" and len: "length embeddings = length chunks"
      by (auto simp: index_doc_def split: sum.splits if_splits)
    obtain col1 upserted where u: "upsert_chunks col (row_id d) (row_url d) (row_title d)
        (row_source d) (row_date_published d) chunks embeddings = (col1, upserted)"
      by (cases "upsert_chunks col (row_id d) (row_url d) (row_title d)
        (row_source d) (row_date_published d) chunks embeddings") auto
    with upsert_chunks_count [OF False, of col "row_id d" "row_url d" "row_title d"
        "row_source d" "row_date_published d" embeddings]
    have up: "upserted = int (length chunks)" by simp
    from assms c False e len u have "t' = \<lparr> total_chunks = total_chunks t + int (length chunks),
        total_embedded = total_embedded t + int (length embeddings),
        total_upserted = total_upserted t + upserted \<rparr>"
      by (simp add: index_doc_def)
    with len up show ?thesis by simp
  qed
qed

lemma index_docs_totals:
  assumes "index_docs ix emb ds col t = Some (col', Inr t')"
    and "total_chunks t = total_embedded t" "total_embedded t = total_upserted t"
  shows "total_chunks t' = total_embedded t' \<and> total_embedded t' = total_upserted t'"
  using assms
proof (induction ds arbitrary: col t)
  case Nil
  then show ?case by simp
next
  case (Cons d ds)
  from Cons.prems(1) obtain col1 t1 where
    step: "index_doc ix emb d col t = Some (col1, Inr t1)"
    and rest: "index_docs ix emb ds col1 t1 = Some (col', Inr t')"
    by (auto split: option.splits sum.splits prod.splits)
  from index_doc_totals [OF step] Cons.prems(2,3)
  have "total_chunks t1 = total_embedded t1" "total_embedded t1 = total_upserted t1"
    by auto
  from Cons.IH [OF rest this] show ?case .
qed

text \<open>
  Claim C10.  Whenever \<^verbatim>\<open>index_recent\<close> returns a report, its \<^verbatim>\<open>chunks_total\<close>,
  \<^verbatim>\<open>embedded_total\<close> and \<^verbatim>\<open>upserted_total\<close> are equal.
\<close>

theorem index_recent_totals_equal:
  assumes "index_recent ix emb store col limit_docs = Some (col', Inr rep)"
  shows "chunks_total rep = embedded_total rep \<and> embedded_total rep = upserted_total rep"
proof -
  let ?zero = "\<lparr> total_chunks = 0, total_embedded = 0, total_upserted = 0 \<rparr>"
  from assms obtain t where
    run: "index_docs ix emb (fetch_all store limit_docs) col ?zero = Some (col', Inr t)"
    and rep: "rep = \<lparr> docs_processed = int (length (fetch_all store limit_docs)),
                      chunks_total = total_chunks t, embedded_total = total_embedded t,
                      upserted_total = total_upserted t \<rparr>"
    by (auto simp: index_recent_def Let_def split: option.splits sum.splits prod.splits)
  from index_docs_totals [OF run] rep show ?thesis by simp
qed

section \<open>The indexer on the example data\<close>

lemma chunk_doc_short:
  "chunk_doc example_indexer (ustr ''ok'') = Some [ustr ''ok'']"
  "chunk_doc example_indexer (ustr ''bad'') = Some [ustr ''bad'']"
  by (simp_all add: chunk_doc_def example_indexer_def simple_chunk_def paragraphs_def ustr_def
      strip_def is_space_def)

lemma example_row_fields:
  "row_id (example_row i text) = i" "row_raw_text (example_row i text) = text"
  by (simp_all add: example_row_def)

lemma fetch_all_two:
  "fetch_all \<lparr> rows = [example_row 1 a, example_row 2 b], seq = 2 \<rparr> 200 =
     [example_row 2 b, example_row 1 a]"
  by (simp add: fetch_all_def example_row_fields)

lemma embed_chunks_one:
  "embed_chunks example_indexer unit_embed [x] = Inr [[1]]"
  "embed_chunks example_indexer failing_embed [ustr ''ok''] = Inr [[1]]"
  "embed_chunks example_indexer failing_embed [ustr ''bad''] = Inr []"
  by (simp_all add: embed_chunks_def example_indexer_def unit_embed_def failing_embed_def ustr_def)

lemma index_doc_ok:
  "\<exists>col'. index_doc example_indexer unit_embed (example_row i (ustr ''ok'')) col t =
     Some (col', Inr \<lparr> total_chunks = total_chunks t + 1, total_embedded = total_embedded t + 1,
                       total_upserted = total_upserted t + 1 \<rparr>)"
  "\<exists>col'. index_doc example_indexer failing_embed (example_row i (ustr ''ok'')) col t =
     Some (col', Inr \<lparr> total_chunks = total_chunks t + 1, total_embedded = total_embedded t + 1,
                       total_upserted = total_upserted t + 1 \<rparr>)"
  by (simp_all add: index_doc_def chunk_doc_short example_row_fields embed_chunks_one
      upsert_chunks_def Let_def)

theorem index_recent_totals_equal_witness:
  "\<exists>col' rep. index_recent example_indexer unit_embed
       \<lparr> rows = [example_row 1 (ustr ''ok''), example_row 2 (ustr ''ok'')], seq = 2 \<rparr> Map.empty 200 =
       Some (col', Inr rep) \<and>
     chunks_total rep = embedded_total rep \<and> embedded_total rep = upserted_total rep"
proof -
  let ?zero = "\<lparr> total_chunks = 0, total_embedded = 0, total_upserted = 0 \<rparr>"
  obtain c1 t1 where s1: "index_doc example_indexer unit_embed (example_row 2 (ustr ''ok''))
      Map.empty ?zero = Some (c1, Inr t1)"
    using index_doc_ok(1) [of 2 Map.empty ?zero] by blast
  obtain c2 t2 where s2: "index_doc example_indexer unit_embed (example_row 1 (ustr ''ok''))
      c1 t1 = Some (c2, Inr t2)"
    using index_doc_ok(1) [of 1 c1 t1] by blast
  have "\<exists>rep. index_recent example_indexer unit_embed
       \<lparr> rows = [example_row 1 (ustr ''ok''), example_row 2 (ustr ''ok'')], seq = 2 \<rparr> Map.empty 200 =
       Some (c2, Inr rep)"
    by (simp add: index_recent_def fetch_all_two s1 s2)
  then obtain rep where run: "index_recent example_indexer unit_embed
       \<lparr> rows = [example_row 1 (ustr ''ok''), example_row 2 (ustr ''ok'')], seq = 2 \<rparr> Map.empty 200 =
       Some (c2, Inr rep)"
    by blast
  from index_recent_totals_equal [OF run] run show ?thesis by blast
qed

section \<open>The indexer: a count mismatch ends the run\<close>

lemma index_docs_append:
  "index_docs ix emb (xs @ ys) col t =
     (case index_docs ix emb xs col t of
        None \<Rightarrow> None
      | Some (col', Inl e) \<Rightarrow> Some (col', Inl e)
      | Some (col', Inr t') \<Rightarrow> index_docs ix emb ys col' t')"
  by (induction xs arbitrary: col t) (auto split: option.splits sum.splits prod.splits)

lemma index_doc_mismatch:
  assumes "chunk_doc ix (row_raw_text d) = Some chunks" "chunks \<noteq> []"
    and "embed_chunks ix emb chunks = Inr embeddings" "length embeddings \<noteq> length chunks"
  shows "index_doc ix emb d col t = Some (col, Inl count_mismatch)"
  using assms by (simp add: index_doc_def count_mismatch_def)

text \<open>
  Claim C4, as stated: a count mismatch for one document leaves the run going, and the
  later documents still reach the report.  In the source the check raises RuntimeError
  inside the loop and nothing catches it.  Here the newer of two stored documents gets no
  embedding: the run ends with the exception, there is no report, and the older document,
  which would have been indexed, is not in the collection.
\<close>

theorem index_recent_mismatch_counterexample:
  "index_recent example_indexer failing_embed
     \<lparr> rows = [example_row 1 (ustr ''ok''), example_row 2 (ustr ''bad'')], seq = 2 \<rparr> Map.empty 200 =
     Some (Map.empty, Inl count_mismatch)"
  by (simp add: index_recent_def fetch_all_two index_doc_def chunk_doc_short example_row_fields
      embed_chunks_one count_mismatch_def)

text \<open>
  Claim C4, amended.  If the documents before \<open>d\<close> in the batch are indexed without an
  exception and the number of embeddings returned for \<open>d\<close> differs from the number of its
  chunks, then \<^verbatim>\<open>index_recent\<close> raises RuntimeError at \<open>d\<close>: the whole run is aborted, no
  report is returned, the documents after \<open>d\<close> are not processed, and the collection is
  as the documents before \<open>d\<close> left it.
\<close>

theorem index_recent_mismatch_aborts:
  assumes "fetch_all store limit_docs = pre @ d # rest"
    and "index_docs ix emb pre col \<lparr> total_chunks = 0, total_embedded = 0, total_upserted = 0 \<rparr> =
           Some (col1, Inr t1)"
    and "chunk_doc ix (row_raw_text d) = Some chunks" "chunks \<noteq> []"
    and "embed_chunks ix emb chunks = Inr embeddings" "length embeddings \<noteq> length chunks"
  shows "index_recent ix emb store col limit_docs = Some (col1, Inl count_mismatch)"
proof -
  have "index_doc ix emb d col1 t1 = Some (col1, Inl count_mismatch)"
    using assms(3-6) by (rule index_doc_mismatch)
  then have "index_docs ix emb (pre @ d # rest) col
      \<lparr> total_chunks = 0, total_embedded = 0, total_upserted = 0 \<rparr> = Some (col1, Inl count_mismatch)"
    using assms(2) by (simp add: index_docs_append)
  then show ?thesis
    using assms(1) by (simp add: index_recent_def)
qed

theorem index_recent_mismatch_aborts_witness:
  "\<exists>col1. index_recent example_indexer failing_embed
     \<lparr> rows = [example_row 1 (ustr ''bad''), example_row 2 (ustr ''ok'')], seq = 2 \<rparr> Map.empty 200 =
     Some (col1, Inl count_mismatch)"
proof -
  let ?zero = "\<lparr> total_chunks = 0, total_embedded = 0, total_upserted = 0 \<rparr>"
  let ?store = "\<lparr> rows = [example_row 1 (ustr ''bad''), example_row 2 (ustr ''ok'')], seq = 2 \<rparr>"
  have f: "fetch_all ?store 200 = [example_row 2 (ustr ''ok'')] @ example_row 1 (ustr ''bad'') # []"
    by (simp add: fetch_all_two)
  obtain c1 t1 where "index_doc example_indexer failing_embed (example_row 2 (ustr ''ok''))
      Map.empty ?zero = Some (c1, Inr t1)"
    using index_doc_ok(2) [of 2 Map.empty ?zero] by blast
  then have p: "index_docs example_indexer failing_embed [example_row 2 (ustr ''ok'')]
      Map.empty ?zero = Some (c1, Inr t1)"
    by simp
  have c: "chunk_doc example_indexer (row_raw_text (example_row 1 (ustr ''bad''))) = Some [ustr ''bad'']"
    by (simp add: example_row_fields chunk_doc_short)
  have "index_recent example_indexer failing_embed ?store Map.empty 200 = Some (c1, Inl count_mismatch)"
    by (rule index_recent_mismatch_aborts [OF f p c _ embed_chunks_one(3)]) simp_all
  then show ?thesis by blast
qed

section \<open>The document store: duplicates\<close>

lemma lookup_existing_Some:
  assumes "\<exists>r \<in> set (rows st). matches doc r"
  shows "\<exists>r \<in> set (rows st). matches doc r \<and>
           lookup_existing st (doc_url doc) (doc_content_hash doc) = Some r"
proof (cases "find (\<lambda>r. row_url r = doc_url doc) (rows st)")
  case (Some r)
  then have "r \<in> set (rows st)" "row_url r = doc_url doc"
    by (auto simp: find_Some_iff)
  with Some show ?thesis
    by (auto simp: lookup_existing_def matches_def)
next
  case None
  with assms obtain r' where "r' \<in> set (rows st)" "row_content_hash r' = doc_content_hash doc"
    by (auto simp: find_None_iff matches_def)
  then obtain r where r: "find (\<lambda>r. row_content_hash r = doc_content_hash doc) (rows st) = Some r"
    by (cases "find (\<lambda>r. row_content_hash r = doc_content_hash doc) (rows st)")
      (auto simp: find_None_iff)
  then have "r \<in> set (rows st)" "row_content_hash r = doc_content_hash doc"
    by (auto simp: find_Some_iff)
  with None r show ?thesis
    by (auto simp: lookup_existing_def matches_def)
qed

lemma upsert_existing:
  assumes "\<exists>r \<in> set (rows st). matches doc r"
  shows "\<exists>r \<in> set (rows st). matches doc r \<and> upsert_document st now doc = (st, row_id r)"
  using lookup_existing_Some [OF assms] by (auto simp: upsert_document_def)

lemma upsert_new:
  assumes "\<not> (\<exists>r \<in> set (rows st). matches doc r)"
  shows "\<exists>row. upsert_document st now doc = (\<lparr> rows = rows st @ [row], seq = next_id st \<rparr>, next_id st)
           \<and> row_id row = next_id st \<and> row_url row = doc_url doc
           \<and> row_content_hash row = doc_content_hash doc"
proof -
  from assms have "find (\<lambda>r. row_url r = doc_url doc) (rows st) = None"
    "find (\<lambda>r. row_content_hash r = doc_content_hash doc) (rows st) = None"
    by (auto simp: find_None_iff matches_def)
  then have "lookup_existing st (doc_url doc) (doc_content_hash doc) = None"
    by (simp add: lookup_existing_def)
  then show ?thesis by (simp add: upsert_document_def Let_def)
qed

text \<open>
  Claim C1, as stated: of any two calls with the same url or the same content hash, the
  second writes nothing.  The store holds one row, with url \<^verbatim>\<open>A\<close> and hash \<^verbatim>\<open>H\<close>.  The
  first call, for url \<^verbatim>\<open>A\<close> and hash \<^verbatim>\<open>G\<close>, finds that row by its url and writes nothing, so
  the hash \<^verbatim>\<open>G\<close> is not stored; the second call, for url \<^verbatim>\<open>B\<close> and the same hash \<^verbatim>\<open>G\<close>,
  finds no row, inserts one and returns the new id 2.
\<close>

theorem upsert_second_call_inserts:
  "doc_content_hash (example_doc (ustr ''A'') (ustr ''G'')) =
     doc_content_hash (example_doc (ustr ''B'') (ustr ''G'')) \<and>
   upsert_document example_store (ustr ''t1'') (example_doc (ustr ''A'') (ustr ''G'')) =
     (example_store, 1) \<and>
   snd (upsert_document example_store (ustr ''t2'') (example_doc (ustr ''B'') (ustr ''G''))) = 2 \<and>
   length (rows example_store) = 1 \<and>
   length (rows (fst (upsert_document example_store (ustr ''t2'')
                        (example_doc (ustr ''B'') (ustr ''G''))))) = 2"
  by (simp add: upsert_document_def lookup_existing_def example_store_def example_doc_def
      next_id_def ustr_def Let_def)

text \<open>
  Claim C1, amended.  If the first of two calls finds no row for its document, so that it
  inserts one, and the second call has the same url or the same content hash, then the
  second call writes nothing: the store, with every field of every row and the row count,
  is unchanged (the first write wins), and the id returned is that of a stored row with
  the second document's url or content hash; it is the id the first call returned
  whenever no row stored before the first call has that url or content hash.  The
  function returns the id only, not a flag.
\<close>

theorem upsert_after_insert:
  assumes "\<not> (\<exists>r \<in> set (rows st). matches d1 r)"
    and "doc_url d2 = doc_url d1 \<or> doc_content_hash d2 = doc_content_hash d1"
    and "upsert_document st t1 d1 = (st1, i1)"
  shows "\<exists>r \<in> set (rows st1). matches d2 r \<and> upsert_document st1 t2 d2 = (st1, row_id r) \<and>
           (\<not> (\<exists>r' \<in> set (rows st). matches d2 r') \<longrightarrow> row_id r = i1)"
proof -
  from upsert_new [OF assms(1), of t1] assms(3) obtain row where
    st1: "st1 = \<lparr> rows = rows st @ [row], seq = next_id st \<rparr>" and i1: "i1 = next_id st"
    and row: "row_id row = next_id st" "row_url row = doc_url d1"
      "row_content_hash row = doc_content_hash d1"
    by auto
  have "matches d2 row"
    using assms(2) row by (auto simp: matches_def)
  then have "\<exists>r \<in> set (rows st1). matches d2 r"
    using st1 by auto
  from upsert_existing [OF this, of t2] obtain r where
    r: "r \<in> set (rows st1)" "matches d2 r" "upsert_document st1 t2 d2 = (st1, row_id r)"
    by blast
  have "row_id r = i1" if "\<not> (\<exists>r' \<in> set (rows st). matches d2 r')"
  proof -
    from r(1,2) that st1 have "r = row" by auto
    with row(1) i1 show ?thesis by simp
  qed
  with r show ?thesis by blast
qed

theorem upsert_after_insert_witness:
  "\<exists>r \<in> set (rows (fst (upsert_document example_store (ustr ''t1'')
                          (example_doc (ustr ''B'') (ustr ''G''))))).
     matches (example_doc (ustr ''C'') (ustr ''G'')) r \<and>
     upsert_document (fst (upsert_document example_store (ustr ''t1'')
                             (example_doc (ustr ''B'') (ustr ''G''))))
       (ustr ''t2'') (example_doc (ustr ''C'') (ustr ''G'')) =
       (fst (upsert_document example_store (ustr ''t1'') (example_doc (ustr ''B'') (ustr ''G''))),
        row_id r) \<and>
     row_id r = snd (upsert_document example_store (ustr ''t1'')
                       (example_doc (ustr ''B'') (ustr ''G'')))"
proof -
  have a: "\<not> (\<exists>r \<in> set (rows example_store). matches (example_doc (ustr ''B'') (ustr ''G'')) r)"
    by (simp add: example_store_def matches_def example_doc_def ustr_def)
  have b: "doc_url (example_doc (ustr ''C'') (ustr ''G'')) = doc_url (example_doc (ustr ''B'') (ustr ''G''))
      \<or> doc_content_hash (example_doc (ustr ''C'') (ustr ''G'')) =
         doc_content_hash (example_doc (ustr ''B'') (ustr ''G''))"
    by (simp add: example_doc_def)
  have c: "\<not> (\<exists>r \<in> set (rows example_store). matches (example_doc (ustr ''C'') (ustr ''G'')) r)"
    by (simp add: example_store_def matches_def example_doc_def ustr_def)
  from upsert_after_insert [OF a b surjective_pairing, of "ustr ''t1''" "ustr ''t2''"] c
  show ?thesis by blast
qed

section \<open>Cosine similarity in exact arithmetic\<close>






section \<open>MMR selection: one pick\<close>

text \<open>
  The inner loop returns the first of the candidates with the largest score, if that
  score is above the starting value, and the starting \<^verbatim>\<open>best_i\<close> otherwise.
\<close>

lemma pick_best_spec:
  "(fst (pick_best score xs b s) = b \<and> (\<forall>x \<in> set xs. score x \<le> s)) \<or>
   (\<exists>ys x zs. xs = ys @ x # zs \<and> fst (pick_best score xs b s) = Some x \<and> s < score x \<and>
       (\<forall>y \<in> set ys. score y < score x) \<and> (\<forall>z \<in> set zs. score z \<le> score x))"
proof (induction xs arbitrary: b s)
  case Nil
  show ?case by simp
next
  case (Cons a xs)
  show ?case
  proof (cases "s < score a")
    case True
    from Cons [of "Some a" "score a"] show ?thesis
    proof
      assume "fst (pick_best score xs (Some a) (score a)) = Some a \<and> (\<forall>x \<in> set xs. score x \<le> score a)"
      then have "a # xs = [] @ a # xs \<and> fst (pick_best score (a # xs) b s) = Some a \<and> s < score a \<and>
          (\<forall>y \<in> set []. score y < score a) \<and> (\<forall>z \<in> set xs. score z \<le> score a)"
        using True by simp
      then show ?thesis by blast
    next
      assume "\<exists>ys x zs. xs = ys @ x # zs \<and> fst (pick_best score xs (Some a) (score a)) = Some x \<and>
          score a < score x \<and> (\<forall>y \<in> set ys. score y < score x) \<and> (\<forall>z \<in> set zs. score z \<le> score x)"
      then obtain ys x zs where h: "xs = ys @ x # zs"
        "fst (pick_best score xs (Some a) (score a)) = Some x" "score a < score x"
        "\<forall>y \<in> set ys. score y < score x" "\<forall>z \<in> set zs. score z \<le> score x"
        by blast
      then have "a # xs = (a # ys) @ x # zs \<and> fst (pick_best score (a # xs) b s) = Some x \<and>
          s < score x \<and> (\<forall>y \<in> set (a # ys). score y < score x) \<and> (\<forall>z \<in> set zs. score z \<le> score x)"
        using True by auto
      then show ?thesis by blast
    qed
  next
    case False
    from Cons [of b s] show ?thesis
    proof
      assume "fst (pick_best score xs b s) = b \<and> (\<forall>x \<in> set xs. score x \<le> s)"
      then show ?thesis using False by auto
    next
      assume "\<exists>ys x zs. xs = ys @ x # zs \<and> fst (pick_best score xs b s) = Some x \<and>
          s < score x \<and> (\<forall>y \<in> set ys. score y < score x) \<and> (\<forall>z \<in> set zs. score z \<le> score x)"
      then obtain ys x zs where h: "xs = ys @ x # zs"
        "fst (pick_best score xs b s) = Some x" "s < score x"
        "\<forall>y \<in> set ys. score y < score x" "\<forall>z \<in> set zs. score z \<le> score x"
        by blast
      then have "a # xs = (a # ys) @ x # zs \<and> fst (pick_best score (a # xs) b s) = Some x \<and>
          s < score x \<and> (\<forall>y \<in> set (a # ys). score y < score x) \<and> (\<forall>z \<in> set zs. score z \<le> score x)"
        using False by auto
      then show ?thesis by blast
    qed
  qed
qed


lemma pick_best_found:
  assumes "x \<in> set xs" "s < score x"
  shows "\<exists>y \<in> set xs. fst (pick_best score xs None s) = Some y"
  using pick_best_spec [of score xs None s] assms by fastforce

section \<open>MMR selection: the scores\<close>



section \<open>MMR selection: the loop\<close>

declare mmr_loop.simps [simp del]

lemma mmr_loop_stop:
  assumes "remaining = {} \<or> \<not> int (length selected) < k"
  shows "mmr_loop iter q vecs k lam remaining selected = Inr selected"
  by (subst mmr_loop.simps) (use assms in auto)


section \<open>MMR selection: which candidate wins a tie\<close>











section \<open>MMR selection on floats: how many ids are selected\<close>

declare mmr_loop_on.simps [simp del]



lemma mmr_loop_on_stop:
  assumes "remaining = {} \<or> \<not> int (length selected) < k"
  shows "mmr_loop_on gt start score iter k remaining selected = Inr selected"
  by (subst mmr_loop_on.simps) (use assms in auto)






text \<open>With exact arithmetic the loop on floats is the loop of \<open>mmr_select\<close>.\<close>

lemma pick_best_on_exact:
  "pick_best_on (\<lambda>a b. a > b) score xs b s = pick_best score xs b s"
  by (induction xs arbitrary: b s) auto

lemma mmr_loop_on_exact:
  "mmr_loop_on (\<lambda>a b. a > b) (- (10 ^ 9)) (mmr_score q vecs lam) iter k remaining selected =
     mmr_loop iter q vecs k lam remaining selected"
proof (induction iter q vecs k lam remaining selected rule: mmr_loop.induct)
  case (1 iter q vecs k lam remaining selected)
  let ?p = "fst (pick_best (mmr_score q vecs lam selected) (iter remaining) None (- (10 ^ 9)))"
  show ?case
  proof (cases "remaining \<noteq> {} \<and> int (length selected) < k")
    case False
    then have "remaining = {} \<or> \<not> int (length selected) < k" by simp
    then show ?thesis by (simp only: mmr_loop_on_stop mmr_loop_stop)
  next
    case True
    then have ne: "remaining \<noteq> {}" and lt: "int (length selected) < k" by simp_all
    have L: "mmr_loop_on (\<lambda>a b. a > b) (- (10 ^ 9)) (mmr_score q vecs lam) iter k remaining selected =
      (case ?p of None \<Rightarrow> Inl KeyError
       | Some b \<Rightarrow> if b \<in> remaining
           then mmr_loop_on (\<lambda>a b. a > b) (- (10 ^ 9)) (mmr_score q vecs lam) iter k
                  (remaining - {b}) (selected @ [b])
           else Inl KeyError)"
      using ne lt by (subst mmr_loop_on.simps) (simp add: pick_best_on_exact)
    have R: "mmr_loop iter q vecs k lam remaining selected =
      (case ?p of None \<Rightarrow> Inl KeyError
       | Some b \<Rightarrow> if b \<in> remaining
           then mmr_loop iter q vecs k lam (remaining - {b}) (selected @ [b])
           else Inl KeyError)"
      using ne lt by (subst mmr_loop.simps) simp
    show ?thesis
    proof (cases ?p)
      case None
      then show ?thesis by (simp only: L R option.case)
    next
      case (Some b)
      show ?thesis
      proof (cases "b \<in> remaining")
        case in_rem: True
        from "1.IH" [OF True Some in_rem] show ?thesis
          by (simp only: L R Some option.case in_rem if_True)
      next
        case False
        then show ?thesis by (simp only: L R Some option.case if_False)
      qed
    qed
  qed
qed

lemma mmr_select_on_exact:
  "mmr_select_on (\<lambda>a b. a > b) (- (10 ^ 9)) (mmr_score q vecs lam) iter vecs cand_idxs k =
     mmr_select iter q vecs cand_idxs k lam"
  by (simp only: mmr_select_on_def mmr_select_def mmr_loop_on_exact)






section \<open>The retriever: the order of the scores\<close>


lemma set_insert_desc: "set (insert_desc lt x ys) = insert x (set ys)"
  by (induction ys) auto

lemma set_sort_picked_aux: "set (fold (insert_desc lt) xs acc) = set xs \<union> set acc"
  by (induction xs arbitrary: acc) (auto simp: set_insert_desc)

lemma set_sort_picked: "set (sort_picked lt picked) = set picked"
  by (simp add: sort_picked_def set_sort_picked_aux)












end
